theory Spec2Isabelle
  imports Main "HOL-Library.Word"
begin

unbundle bit_operations_syntax

section \<open>The \<open>gray_code\<close> class template of cpp-gray\<close>

text \<open>
  The library is one class template, \<open>gray_code<Unsigned>\<close> (\<open>gray.h\<close>, \<open>gray.inl\<close>),
  holding a single unsigned integer \<open>value\<close> whose bits are the reflected binary code of
  the number it stands for.  The template parameter is a built-in unsigned integer
  type; it is modelled by the word type \<open>'a word\<close>, whose length \<open>LENGTH('a)\<close> is
  \<open>std::numeric_limits<Unsigned>::digits\<close>.

  The C++ type \<open>int\<close> and \<open>unsigned int\<close> are taken to be 32 bits wide (as on every
  ILP32, LP64 and LLP64 platform).  Operands narrower than \<open>int\<close> are promoted to
  \<open>int\<close> before arithmetic; the results that the code stores back into \<open>value\<close> are
  truncated to the width of \<open>Unsigned\<close>, which is what the word operations compute.
  Where a C++ expression has no defined result the model returns \<open>None\<close>.
\<close>

subsection \<open>Data\<close>

record (overloaded) ('a::len) gray_code =
  "value" :: "'a word"

text \<open>The \<open>#if defined(__GNUC__) || defined(__clang__)\<close> switch of \<open>is_odd\<close>.\<close>

datatype compiler = GNUC_or_clang | Other_compiler

subsection \<open>Shifts of the built-in types\<close>

text \<open>
  \<open>E1 << E2\<close> on an \<open>int\<close> (C++14 [expr.shift]): undefined when \<open>E2\<close> is at least the
  width of \<open>int\<close>, when \<open>E1\<close> is negative, or when \<open>E1 * 2^E2\<close> does not fit the
  corresponding unsigned type.  The \<open>int\<close> is held in a 32-bit word read by \<open>sint\<close>.
\<close>

definition int_shift_left :: "32 word \<Rightarrow> nat \<Rightarrow> 32 word option" where
  "int_shift_left e1 e2 =
     (if e2 < 32 \<and> 0 \<le> sint e1 \<and> sint e1 * 2 ^ e2 < 2 ^ 32
      then Some (push_bit e2 e1) else None)"

text \<open>\<open>E1 >> E2\<close> on a non-negative \<open>int\<close>: undefined when \<open>E2\<close> is at least 32.\<close>

definition int_shift_right :: "32 word \<Rightarrow> nat \<Rightarrow> 32 word option" where
  "int_shift_right e1 e2 = (if e2 < 32 then Some (drop_bit e2 e1) else None)"

text \<open>Conversion of an \<open>int\<close> to \<open>Unsigned\<close>: the value modulo \<open>2 ^ digits\<close>.\<close>

definition int_to_unsigned :: "32 word \<Rightarrow> 'a::len word" where
  "int_to_unsigned i = word_of_int (sint i)"

text \<open>
  \<open>value << pos\<close> and \<open>value >> pos\<close> with \<open>value\<close> of type \<open>Unsigned\<close> and \<open>pos\<close> a
  \<open>std::size_t\<close>, the result converted back to \<open>Unsigned\<close>.  A type narrower than \<open>int\<close>
  is promoted to \<open>int\<close> first; the others shift in their own width.
\<close>

definition shift_left :: "'a::len word \<Rightarrow> nat \<Rightarrow> 'a word option" where
  "shift_left v pos =
     (if LENGTH('a) < 32 then map_option int_to_unsigned (int_shift_left (ucast v) pos)
      else if pos < LENGTH('a) then Some (push_bit pos v) else None)"

definition shift_right :: "'a::len word \<Rightarrow> nat \<Rightarrow> 'a word option" where
  "shift_right v pos =
     (if LENGTH('a) < 32 then map_option int_to_unsigned (int_shift_right (ucast v) pos)
      else if pos < LENGTH('a) then Some (drop_bit pos v) else None)"

subsection \<open>Construction and assignment\<close>

text \<open>\<open>gray_code()\<close>: \<open>value(0)\<close>.\<close>

definition gray_code_default :: "'a::len gray_code" where
  "gray_code_default = \<lparr>value = 0\<rparr>"

text \<open>\<open>gray_code(value_type value)\<close>: \<open>value( (value >> 1) ^ value )\<close>.\<close>

definition gray_code_of_value :: "'a::len word \<Rightarrow> 'a gray_code" where
  "gray_code_of_value v = \<lparr>value = drop_bit 1 v XOR v\<rparr>"

text \<open>\<open>gray_code(bool value)\<close>: \<open>value(value)\<close>.\<close>

definition gray_code_of_bool :: "bool \<Rightarrow> 'a::len gray_code" where
  "gray_code_of_bool b = \<lparr>value = of_bool b\<rparr>"

text \<open>\<open>operator=(value_type other)\<close> and \<open>operator=(bool other)\<close>.\<close>

definition assign_value :: "'a::len gray_code \<Rightarrow> 'a word \<Rightarrow> 'a gray_code" where
  "assign_value g other = g\<lparr>value := drop_bit 1 other XOR other\<rparr>"

definition assign_bool :: "'a::len gray_code \<Rightarrow> bool \<Rightarrow> 'a gray_code" where
  "assign_bool g other = g\<lparr>value := of_bool other\<rparr>"

text \<open>The free function \<open>gray(value)\<close>: \<open>return gray_code<Unsigned>(value)\<close>.\<close>

definition gray :: "'a::len word \<Rightarrow> 'a gray_code" where
  "gray v = gray_code_of_value v"

subsection \<open>Conversion\<close>

text \<open>
  \<open>operator value_type\<close>:
  \<open>for (value_type mask = digits / 2 ; mask ; mask >>= 1) res ^= res >> mask;\<close>
  The counter \<open>mask\<close> (\<open>msk\<close> below) has the type \<open>value_type\<close> itself.
\<close>

function operator_value_type_loop :: "'a::len word \<Rightarrow> 'a word \<Rightarrow> 'a word" where
  "operator_value_type_loop msk res =
     (if msk = 0 then res
      else operator_value_type_loop (drop_bit 1 msk) (res XOR drop_bit (unat msk) res))"
  by pat_completeness auto

termination
proof (relation "measure (\<lambda>(msk, res). unat msk)")
  show "wf (measure (\<lambda>(msk :: 'a word, res :: 'a word). unat msk))"
    by simp
next
  fix msk res :: "'a word"
  assume "msk \<noteq> 0"
  then have "unat msk \<noteq> 0"
    by (simp add: unat_eq_0)
  then have "unat msk div 2 < unat msk"
    by simp
  then show "((drop_bit 1 msk, res XOR drop_bit (unat msk) res), (msk, res))
               \<in> measure (\<lambda>(msk, res). unat msk)"
    by (simp add: drop_bit_eq_div unat_div)
qed

declare operator_value_type_loop.simps [simp del]

definition operator_value_type :: "'a::len gray_code \<Rightarrow> 'a word" where
  "operator_value_type g = operator_value_type_loop (of_nat (LENGTH('a) div 2)) (value g)"

text \<open>\<open>operator bool\<close>: \<open>static_cast<bool>(value)\<close>.\<close>

definition operator_bool :: "'a::len gray_code \<Rightarrow> bool" where
  "operator_bool g = (value g \<noteq> 0)"

text \<open>
  The two conversion functions as the library's article on conversions gives them:
  \<open>to_gray\<close> is \<open>value ^ (value >> 1)\<close> and \<open>from_gray\<close> is the loop of
  \<open>operator value_type\<close>.
\<close>

definition to_gray :: "'a::len word \<Rightarrow> 'a word" where
  "to_gray v = v XOR drop_bit 1 v"

definition from_gray :: "'a::len word \<Rightarrow> 'a word" where
  "from_gray v = operator_value_type_loop (of_nat (LENGTH('a) div 2)) v"

subsection \<open>Comparison\<close>

definition operator_eq :: "'a::len gray_code \<Rightarrow> 'a gray_code \<Rightarrow> bool" where
  "operator_eq lhs rhs = (value lhs = value rhs)"

definition operator_ne :: "'a::len gray_code \<Rightarrow> 'a gray_code \<Rightarrow> bool" where
  "operator_ne lhs rhs = (value lhs \<noteq> value rhs)"

text \<open>\<open>gray_code == Unsigned\<close>: \<open>(rhs ^ (rhs >> 1)) == lhs.value\<close>.\<close>

definition operator_eq_gray_unsigned :: "'a::len gray_code \<Rightarrow> 'a word \<Rightarrow> bool" where
  "operator_eq_gray_unsigned lhs rhs = ((rhs XOR drop_bit 1 rhs) = value lhs)"

definition operator_ne_gray_unsigned :: "'a::len gray_code \<Rightarrow> 'a word \<Rightarrow> bool" where
  "operator_ne_gray_unsigned lhs rhs = ((rhs XOR drop_bit 1 rhs) \<noteq> value lhs)"

text \<open>\<open>Unsigned == gray_code\<close>: \<open>(lhs ^ (lhs >> 1)) == rhs.value\<close>.\<close>

definition operator_eq_unsigned_gray :: "'a::len word \<Rightarrow> 'a gray_code \<Rightarrow> bool" where
  "operator_eq_unsigned_gray lhs rhs = ((lhs XOR drop_bit 1 lhs) = value rhs)"

definition operator_ne_unsigned_gray :: "'a::len word \<Rightarrow> 'a gray_code \<Rightarrow> bool" where
  "operator_ne_unsigned_gray lhs rhs = ((lhs XOR drop_bit 1 lhs) \<noteq> value rhs)"

subsection \<open>Parity\<close>

text \<open>The number of bits set in a word.\<close>

definition popcount :: "'a::len word \<Rightarrow> nat" where
  "popcount w = length (filter (bit w) [0..<LENGTH('a)])"

text \<open>
  Modelled from the spec: the native parity intrinsic \<open>__builtin_parity\<close> belongs to
  the compiler, not to the repository; the specification (section 4.5) asks of it the
  count of set bits modulo 2.  Its declaration is \<open>int __builtin_parity (unsigned int)\<close>:
  the argument is an \<open>unsigned int\<close>, the result an \<open>int\<close> that is 0 or 1.
\<close>

definition builtin_parity :: "32 word \<Rightarrow> 32 word" where
  "builtin_parity x = of_nat (popcount x mod 2)"

text \<open>
  The portable branch of \<open>is_odd\<close>:
  \<open>for (std::size_t i = digits / 2 ; i ; i >>= 1) code.value ^= (code.value >> i);\<close>
  The counter only decreases from \<open>digits / 2\<close>, so a natural number stands for the
  \<open>std::size_t\<close>.
\<close>

function is_odd_loop :: "nat \<Rightarrow> 'a::len word \<Rightarrow> 'a word" where
  "is_odd_loop i v = (if i = 0 then v else is_odd_loop (i div 2) (v XOR drop_bit i v))"
  by pat_completeness auto

termination
  by (relation "measure (\<lambda>(i, v). i)") auto

declare is_odd_loop.simps [simp del]

text \<open>
  \<open>is_odd\<close>.  With GCC or clang the member \<open>code.value\<close> is passed to
  \<open>__builtin_parity\<close>, that is, converted to \<open>unsigned int\<close>; otherwise the loop runs and
  \<open>code.value & 1\<close> is returned as a \<open>bool\<close>.
\<close>

definition is_odd :: "compiler \<Rightarrow> 'a::len gray_code \<Rightarrow> bool" where
  "is_odd c code =
     (case c of
        GNUC_or_clang \<Rightarrow> builtin_parity (ucast (value code)) \<noteq> 0
      | Other_compiler \<Rightarrow> is_odd_loop (LENGTH('a) div 2) (value code) AND 1 \<noteq> 0)"

definition is_even :: "compiler \<Rightarrow> 'a::len gray_code \<Rightarrow> bool" where
  "is_even c code = (\<not> is_odd c code)"

subsection \<open>Increment and decrement\<close>

text \<open>
  \<open>constexpr value_type msb = 1 << (digits - 1);\<close>  The literal \<open>1\<close> is an \<open>int\<close>, so the
  shift is done on \<open>int\<close> and its result converted to \<open>value_type\<close>.
\<close>

definition msb :: "'a::len word option" where
  "msb = map_option int_to_unsigned (int_shift_left 1 (LENGTH('a) - 1))"

text \<open>
  \<open>operator++()\<close>.  In \<open>value & -value\<close> and \<open>y << 1\<close> a narrow \<open>value\<close> is promoted to
  \<open>int\<close>; \<open>y\<close> is then at most \<open>2 ^ (digits - 1)\<close>, the shift by one is defined, and
  the result stored into \<open>value\<close> is the one of the word operations.
\<close>

definition operator_increment :: "compiler \<Rightarrow> 'a::len gray_code \<Rightarrow> 'a gray_code option" where
  "operator_increment c g =
     (case msb of
        None \<Rightarrow> None
      | Some m \<Rightarrow>
          Some (if is_odd c g then
                  (if value g = m then g\<lparr>value := 0\<rparr>
                   else let y = value g AND - value g
                        in g\<lparr>value := value g XOR push_bit 1 y\<rparr>)
                else g\<lparr>value := value g XOR 1\<rparr>))"

text \<open>\<open>operator--()\<close>.\<close>

definition operator_decrement :: "compiler \<Rightarrow> 'a::len gray_code \<Rightarrow> 'a gray_code option" where
  "operator_decrement c g =
     (case msb of
        None \<Rightarrow> None
      | Some m \<Rightarrow>
          Some (if is_odd c g then g\<lparr>value := value g XOR 1\<rparr>
                else
                  (if value g = 0 then g\<lparr>value := m\<rparr>
                   else let y = value g AND - value g
                        in g\<lparr>value := value g XOR push_bit 1 y\<rparr>)))"

subsection \<open>Bitwise operations\<close>

text \<open>The compound assignments with another Gray code, and the two shifts.\<close>

definition operator_and_assign :: "'a::len gray_code \<Rightarrow> 'a gray_code \<Rightarrow> 'a gray_code" where
  "operator_and_assign g other = g\<lparr>value := value g AND value other\<rparr>"

definition operator_or_assign :: "'a::len gray_code \<Rightarrow> 'a gray_code \<Rightarrow> 'a gray_code" where
  "operator_or_assign g other = g\<lparr>value := value g OR value other\<rparr>"

definition operator_xor_assign :: "'a::len gray_code \<Rightarrow> 'a gray_code \<Rightarrow> 'a gray_code" where
  "operator_xor_assign g other = g\<lparr>value := value g XOR value other\<rparr>"

definition operator_shr_assign :: "'a::len gray_code \<Rightarrow> nat \<Rightarrow> 'a gray_code option" where
  "operator_shr_assign g pos = map_option (\<lambda>v. g\<lparr>value := v\<rparr>) (shift_right (value g) pos)"

definition operator_shl_assign :: "'a::len gray_code \<Rightarrow> nat \<Rightarrow> 'a gray_code option" where
  "operator_shl_assign g pos = map_option (\<lambda>v. g\<lparr>value := v\<rparr>) (shift_left (value g) pos)"

text \<open>
  The binary operators take their operands by value and return \<open>lhs &= rhs\<close>,
  \<open>lhs |= rhs\<close>, \<open>lhs ^= rhs\<close>, \<open>val >>= pos\<close> and \<open>val <<= pos\<close>; \<open>operator~\<close> stores
  \<open>~val.value\<close>.
\<close>

definition operator_and :: "'a::len gray_code \<Rightarrow> 'a gray_code \<Rightarrow> 'a gray_code" where
  "operator_and lhs rhs = operator_and_assign lhs rhs"

definition operator_or :: "'a::len gray_code \<Rightarrow> 'a gray_code \<Rightarrow> 'a gray_code" where
  "operator_or lhs rhs = operator_or_assign lhs rhs"

definition operator_xor :: "'a::len gray_code \<Rightarrow> 'a gray_code \<Rightarrow> 'a gray_code" where
  "operator_xor lhs rhs = operator_xor_assign lhs rhs"

definition operator_not :: "'a::len gray_code \<Rightarrow> 'a gray_code" where
  "operator_not val = val\<lparr>value := NOT (value val)\<rparr>"

definition operator_shr :: "'a::len gray_code \<Rightarrow> nat \<Rightarrow> 'a gray_code option" where
  "operator_shr val pos = operator_shr_assign val pos"

definition operator_shl :: "'a::len gray_code \<Rightarrow> nat \<Rightarrow> 'a gray_code option" where
  "operator_shl val pos = operator_shl_assign val pos"

section \<open>Conversion is a bijection\<close>

text \<open>
  One pass of the conversion loop, \<open>res ^= res >> m\<close>, is the linear map \<open>I + S^m\<close>
  over the two-element field, \<open>S\<close> being the shift to the right by one.  Two such
  passes with the same \<open>m\<close> make \<open>I + S^(2m)\<close>, and passes commute.
\<close>

lemma fold_twice:
  "(x XOR drop_bit m x) XOR drop_bit m (x XOR drop_bit m x)
     = x XOR drop_bit (2 * m) (x :: 'a::len word)"
  by (simp add: drop_bit_xor drop_bit_drop_bit mult_2 xor.assoc)

lemma loop_fold_commute:
  "operator_value_type_loop msk (y XOR drop_bit n y)
     = operator_value_type_loop msk y XOR drop_bit n (operator_value_type_loop msk y)"
proof (induction msk y rule: operator_value_type_loop.induct)
  case (1 msk res)
  show ?case
  proof (cases "msk = 0")
    case True
    then show ?thesis by (simp add: operator_value_type_loop.simps)
  next
    case False
    have "(res XOR drop_bit n res) XOR drop_bit (unat msk) (res XOR drop_bit n res)
          = (res XOR drop_bit (unat msk) res) XOR drop_bit n (res XOR drop_bit (unat msk) res)"
      by (simp add: xor.assoc xor.left_commute add.commute)
    with False 1 show ?thesis
      by (subst (1 2 3) operator_value_type_loop.simps) simp
  qed
qed

lemma unat_exp_word:
  assumes "k < LENGTH('a::len)"
  shows "unat ((2 :: 'a word) ^ k) = 2 ^ k"
proof -
  have "(2 :: nat) ^ k < 2 ^ LENGTH('a)"
    using assms by (simp only: power_strict_increasing_iff one_less_numeral_iff semiring_norm)
  then have "unat (of_nat (2 ^ k) :: 'a word) = 2 ^ k"
    by (simp only: unat_of_nat mod_less)
  then show ?thesis
    by (simp only: of_nat_power of_nat_numeral)
qed

text \<open>
  Started at the mask \<open>2 ^ k\<close>, the loop undoes \<open>to_gray\<close> up to a shift by
  \<open>2 ^ (k + 1)\<close>.
\<close>

lemma loop_pow2:
  "k < LENGTH('a) \<Longrightarrow>
   operator_value_type_loop (2 ^ k) (y XOR drop_bit 1 y)
     = y XOR drop_bit (2 ^ Suc k) (y :: 'a::len word)"
proof (induction k arbitrary: y)
  case 0
  show ?case
    apply (subst operator_value_type_loop.simps)
    apply (subst operator_value_type_loop.simps)
    using fold_twice[of y 1] by simp
next
  case (Suc k)
  then have k: "k < LENGTH('a)" by simp
  have nz: "(2 :: 'a word) ^ Suc k \<noteq> 0"
    using Suc.prems by (simp only: exp_eq_zero_iff not_le)
  have un: "unat ((2 :: 'a word) ^ Suc k) = 2 ^ Suc k"
    using Suc.prems by (rule unat_exp_word)
  have dr: "drop_bit 1 ((2 :: 'a word) ^ Suc k) = 2 ^ k"
    using Suc.prems by (simp add: drop_bit_exp_eq possible_bit_word del: power_Suc)
  have "operator_value_type_loop (2 ^ Suc k) (y XOR drop_bit 1 y)
        = operator_value_type_loop (2 ^ k)
            ((y XOR drop_bit 1 y) XOR drop_bit (2 ^ Suc k) (y XOR drop_bit 1 y))"
    by (subst operator_value_type_loop.simps) (simp only: nz un dr if_False)
  also have "(y XOR drop_bit 1 y) XOR drop_bit (2 ^ Suc k) (y XOR drop_bit 1 y)
        = (y XOR drop_bit (2 ^ Suc k) y) XOR drop_bit 1 (y XOR drop_bit (2 ^ Suc k) y)"
    by (simp add: xor.assoc xor.left_commute add.commute)
  also have "operator_value_type_loop (2 ^ k) \<dots>
      = (y XOR drop_bit (2 ^ Suc k) y) XOR drop_bit (2 ^ Suc k) (y XOR drop_bit (2 ^ Suc k) y)"
    using Suc.IH[OF k] .
  also have "\<dots> = y XOR drop_bit (2 ^ Suc (Suc k)) y"
    using fold_twice[of y "2 ^ Suc k"] by simp
  finally show ?case .
qed

lemma from_gray_to_gray:
  assumes "LENGTH('a::len) = 2 ^ k"
  shows "from_gray (to_gray x) = (x :: 'a word)"
proof (cases k)
  case 0
  with assms have len: "LENGTH('a) = 1" by simp
  then have "drop_bit 1 x = 0"
    by (simp add: drop_bit_word_beyond)
  with len show ?thesis
    by (simp add: from_gray_def to_gray_def operator_value_type_loop.simps)
next
  case (Suc j)
  with assms have half: "LENGTH('a) div 2 = 2 ^ j" by simp
  have "j < 2 ^ Suc j"
    by (rule less_trans [OF less_exp]) simp
  with assms Suc have j: "j < LENGTH('a)" by simp
  have "from_gray (to_gray x) = operator_value_type_loop (2 ^ j) (x XOR drop_bit 1 x)"
    by (simp only: from_gray_def to_gray_def half of_nat_power of_nat_numeral)
  also have "\<dots> = x XOR drop_bit (2 ^ Suc j) x"
    using j by (rule loop_pow2)
  also have "drop_bit (2 ^ Suc j) x = 0"
    using assms Suc by (simp add: drop_bit_word_beyond)
  finally show ?thesis by simp
qed

lemma to_gray_from_gray:
  assumes "LENGTH('a::len) = 2 ^ k"
  shows "to_gray (from_gray y) = (y :: 'a word)"
proof -
  have "to_gray (from_gray y) = from_gray (to_gray y)"
    by (simp only: to_gray_def from_gray_def loop_fold_commute)
  with assms show ?thesis
    by (simp only: from_gray_to_gray)
qed

text \<open>The built-in unsigned types: 8, 16, 32 and 64 bits.\<close>

lemma round_trip_builtin_types:
  "from_gray (to_gray (a :: 8 word)) = a \<and> to_gray (from_gray a) = a"
  "from_gray (to_gray (b :: 16 word)) = b \<and> to_gray (from_gray b) = b"
  "from_gray (to_gray (c :: 32 word)) = c \<and> to_gray (from_gray c) = c"
  "from_gray (to_gray (d :: 64 word)) = d \<and> to_gray (from_gray d) = d"
proof -
  have "LENGTH(8) = 2 ^ 3" "LENGTH(16) = 2 ^ 4" "LENGTH(32) = 2 ^ 5" "LENGTH(64) = 2 ^ 6"
    by simp_all
  then show
    "from_gray (to_gray a) = a \<and> to_gray (from_gray a) = a"
    "from_gray (to_gray b) = b \<and> to_gray (from_gray b) = b"
    "from_gray (to_gray c) = c \<and> to_gray (from_gray c) = c"
    "from_gray (to_gray d) = d \<and> to_gray (from_gray d) = d"
    by (simp_all only: from_gray_to_gray to_gray_from_gray simp_thms)
qed

text \<open>
  The width has to be a power of two.  On three bits the loop runs once, with the mask
  1, and the value 4, whose representation is 6, is converted back to 5.
\<close>

lemma round_trip_on_three_bits: "to_gray (4 :: 3 word) = 6 \<and> from_gray (6 :: 3 word) = 5"
  by code_simp

text \<open>The constructor and the conversion operator are these two functions.\<close>

lemma value_gray_code_of_value: "value (gray_code_of_value v) = to_gray v"
  by (simp add: gray_code_of_value_def to_gray_def xor.commute)

lemma value_gray: "value (gray v) = to_gray v"
  by (simp add: gray_def value_gray_code_of_value)

lemma operator_value_type_from_gray: "operator_value_type g = from_gray (value g)"
  by (simp add: operator_value_type_def from_gray_def)

section \<open>Parity of a representation\<close>

text \<open>
  The parity of the number of set bits is additive over \<open>XOR\<close>, and a shift to the
  right by one loses exactly bit 0.  Hence the representation \<open>to_gray x\<close> has an odd
  number of set bits exactly when \<open>x\<close> is odd.
\<close>

lemma popcount_card: "popcount w = card {n. bit w n}"
proof -
  have "{n. bit w n} = set (filter (bit w) [0..<LENGTH('a)])" for w :: "'a::len word"
    by (auto dest: bit_imp_le_length)
  then show ?thesis
    by (simp only: popcount_def distinct_card distinct_filter distinct_upt)
qed

lemma parity_filter_xor:
  "odd (length (filter (bit (a XOR b)) ns))
     = (odd (length (filter (bit a) ns)) \<noteq> odd (length (filter (bit b) ns)))"
  for a b :: "'a::len word"
  by (induction ns) (auto simp add: bit_xor_iff)

lemma parity_xor:
  "odd (popcount (a XOR b)) = (odd (popcount a) \<noteq> odd (popcount b))"
  by (simp only: popcount_def parity_filter_xor)

lemma popcount_drop_bit_1:
  "popcount v = of_bool (bit v 0) + popcount (drop_bit 1 v)" for v :: "'a::len word"
proof -
  let ?S = "{n. bit v (Suc n)}"
  have fin: "finite ?S"
  proof (rule finite_subset)
    show "?S \<subseteq> {..<LENGTH('a)}"
      by (auto dest: bit_imp_le_length)
  qed simp
  have split: "{n. bit v n} = (if bit v 0 then {0} else {}) \<union> Suc ` ?S"
  proof (rule set_eqI)
    fix n show "n \<in> {n. bit v n} \<longleftrightarrow> n \<in> (if bit v 0 then {0} else {}) \<union> Suc ` ?S"
      by (cases n) auto
  qed
  have "card {n. bit v n} = card (if bit v 0 then {0::nat} else {}) + card (Suc ` ?S)"
    unfolding split using fin by (intro card_Un_disjoint) auto
  also have "card (Suc ` ?S) = card ?S"
    by (simp add: card_image)
  also have "?S = {n. bit (drop_bit 1 v) n}"
    by (simp add: bit_drop_bit_eq)
  finally show ?thesis
    by (simp add: popcount_card)
qed

lemma parity_to_gray: "odd (popcount (to_gray x)) = bit x 0"
proof -
  have "odd (popcount x) = (bit x 0 \<noteq> odd (popcount (drop_bit 1 x)))"
    by (subst popcount_drop_bit_1) simp
  then show ?thesis
    by (auto simp add: to_gray_def parity_xor)
qed

lemma popcount_ucast:
  assumes "LENGTH('a::len) \<le> LENGTH('b::len)"
  shows "popcount (ucast (v :: 'a word) :: 'b word) = popcount v"
proof -
  have "{n. bit (ucast v :: 'b word) n} = {n. bit v n}"
    using assms by (auto simp add: bit_ucast_iff dest: bit_imp_le_length)
  then show ?thesis
    by (simp only: popcount_card)
qed

lemma drop_bit_1_of_nat:
  assumes "i < 2 ^ LENGTH('a)"
  shows "drop_bit 1 (of_nat i :: 'a::len word) = of_nat (i div 2)"
proof -
  from assms have "i div 2 < 2 ^ LENGTH('a)" by simp
  with assms have "unat (drop_bit 1 (of_nat i :: 'a word)) = unat (of_nat (i div 2) :: 'a word)"
    by (simp only: unat_drop_bit_eq unat_of_nat mod_less) (simp add: drop_bit_eq_div)
  then show ?thesis
    by (simp only: word_unat_eq_iff)
qed

lemma is_odd_loop_eq:
  "i < 2 ^ LENGTH('a) \<Longrightarrow>
   is_odd_loop i v = operator_value_type_loop (of_nat i) (v :: 'a::len word)"
proof (induction i v rule: is_odd_loop.induct)
  case (1 i v)
  show ?case
  proof (cases "i = 0")
    case True
    then show ?thesis by (simp add: is_odd_loop.simps operator_value_type_loop.simps)
  next
    case False
    from 1(2) have un: "unat (of_nat i :: 'a word) = i"
      by (simp only: unat_of_nat mod_less)
    with False have nz: "(of_nat i :: 'a word) \<noteq> 0"
      by (metis unat_0)
    have dr: "drop_bit 1 (of_nat i :: 'a word) = of_nat (i div 2)"
      using 1(2) by (rule drop_bit_1_of_nat)
    have "i div 2 < 2 ^ LENGTH('a)"
      using 1(2) by simp
    with 1(1)[OF False] have "is_odd_loop (i div 2) (v XOR drop_bit i v)
         = operator_value_type_loop (of_nat (i div 2)) (v XOR drop_bit i v)"
      by simp
    with False nz un dr show ?thesis
      by (subst is_odd_loop.simps, subst operator_value_type_loop.simps) simp
  qed
qed

lemma is_odd_loop_from_gray:
  "is_odd_loop (LENGTH('a) div 2) v = from_gray (v :: 'a::len word)"
proof -
  have "LENGTH('a) div 2 \<le> LENGTH('a)" by simp
  also have "LENGTH('a) < 2 ^ LENGTH('a)" by (rule less_exp)
  finally show ?thesis
    by (simp only: is_odd_loop_eq from_gray_def)
qed

lemma is_odd_portable:
  assumes "LENGTH('a::len) = 2 ^ k"
  shows "is_odd Other_compiler g = odd (popcount (value (g :: 'a gray_code)))"
proof -
  have "is_odd Other_compiler g = bit (from_gray (value g)) 0"
    by (simp add: is_odd_def is_odd_loop_from_gray and_one_eq bit_0 odd_iff_mod_2_eq_one)
  also have "\<dots> = odd (popcount (to_gray (from_gray (value g))))"
    by (simp only: parity_to_gray)
  finally show ?thesis
    by (simp only: to_gray_from_gray [OF assms])
qed

lemma is_odd_intrinsic:
  assumes "LENGTH('a::len) \<le> 32"
  shows "is_odd GNUC_or_clang g = odd (popcount (value (g :: 'a gray_code)))"
proof -
  have "popcount (ucast (value g) :: 32 word) = popcount (value g)"
    using assms by (intro popcount_ucast) simp
  moreover have "(of_nat (n mod 2) :: 32 word) \<noteq> 0 \<longleftrightarrow> odd n" for n :: nat
    by (cases "even n") (simp_all add: odd_iff_mod_2_eq_one)
  ultimately show ?thesis
    by (simp add: is_odd_def builtin_parity_def)
qed

section \<open>Shifts of a representation\<close>

text \<open>
  Whenever a shift of a \<open>value_type\<close> is defined, what is stored back is the shift of the
  word; a shift by less than the width is always defined.
\<close>

lemma int_to_unsigned_bit:
  "bit (int_to_unsigned w :: 'a::len word) n
     \<longleftrightarrow> n < LENGTH('a) \<and> (bit w n \<or> 32 \<le> n \<and> bit w 31)"
  by (simp add: int_to_unsigned_def bit_word_scast_iff)

lemma shift_left_Some:
  assumes "shift_left v pos = Some r"
  shows "r = push_bit pos (v :: 'a::len word)"
proof (cases "LENGTH('a) < 32")
  case True
  with assms have r: "r = int_to_unsigned (push_bit pos (ucast v :: 32 word))"
    by (auto simp add: shift_left_def int_shift_left_def split: if_splits)
  show ?thesis
    unfolding r using True
    by (intro bit_word_eqI) (auto simp add: int_to_unsigned_bit bit_push_bit_iff bit_ucast_iff)
next
  case False
  with assms show ?thesis
    by (auto simp add: shift_left_def split: if_splits)
qed

lemma shift_right_Some:
  assumes "shift_right v pos = Some r"
  shows "r = drop_bit pos (v :: 'a::len word)"
proof (cases "LENGTH('a) < 32")
  case True
  with assms have r: "r = int_to_unsigned (drop_bit pos (ucast v :: 32 word))"
    by (auto simp add: shift_right_def int_shift_right_def split: if_splits)
  show ?thesis
    unfolding r using True
    by (intro bit_word_eqI) (auto simp add: int_to_unsigned_bit bit_drop_bit_eq bit_ucast_iff dest: bit_imp_le_length)
next
  case False
  with assms show ?thesis
    by (auto simp add: shift_right_def split: if_splits)
qed

lemma pow2_lt_32:
  assumes "LENGTH('a::len) = 2 ^ k" and "LENGTH('a) < 32"
  shows "LENGTH('a) \<le> 16"
proof -
  from assms have "(2::nat) ^ k < 2 ^ 5" by simp
  then have "k < 5" by (simp only: power_strict_increasing_iff one_less_numeral_iff semiring_norm)
  then have "k \<le> 4" by simp
  then have "(2::nat) ^ k \<le> 2 ^ 4" by (simp only: power_increasing_iff one_less_numeral_iff semiring_norm)
  with assms show ?thesis by simp
qed

lemma shift_left_defined:
  assumes "LENGTH('a::len) = 2 ^ k" and "pos < LENGTH('a)"
  shows "shift_left (v :: 'a word) pos \<noteq> None"
proof (cases "LENGTH('a) < 32")
  case True
  then have le: "LENGTH('a) \<le> 16" using assms(1) pow2_lt_32 by blast
  have s: "sint (ucast v :: 32 word) = uint v"
    using True
    by (intro bit_eqI) (auto simp add: bit_sint_iff bit_ucast_iff bit_uint_iff dest: bit_imp_le_length)
  have "uint v < 2 ^ LENGTH('a)" by (rule uint_lt2p)
  also have "\<dots> \<le> (2::int) ^ 16" using le by (simp only: power_increasing_iff one_less_numeral_iff semiring_norm)
  finally have a: "uint v < 2 ^ 16" .
  have "pos \<le> 16" using le assms(2) by simp
  then have "(2::int) ^ pos \<le> 2 ^ 16" by (simp only: power_increasing_iff one_less_numeral_iff semiring_norm)
  with a have "uint v * 2 ^ pos < 2 ^ 16 * 2 ^ 16"
    by (intro mult_less_le_imp_less) simp_all
  then have "uint v * 2 ^ pos < 2 ^ 32" by simp
  with True s assms(2) show ?thesis
    by (simp add: shift_left_def int_shift_left_def)
next
  case False
  with assms show ?thesis by (simp add: shift_left_def)
qed

lemma shift_right_defined:
  assumes "pos < LENGTH('a::len)"
  shows "shift_right (v :: 'a word) pos \<noteq> None"
  using assms by (simp add: shift_right_def int_shift_right_def)

section \<open>The lowest set bit\<close>

text \<open>
  For a word \<open>v\<close> whose lowest set bit is at position \<open>j\<close>, \<open>v & -v\<close> is \<open>2 ^ j\<close>;
  the negation keeps bit \<open>j\<close> and complements the bits above it, and \<open>v - 1\<close> sets the
  bits below \<open>j\<close>, clears bit \<open>j\<close> and keeps the bits above it.
\<close>

lemma popcount_exp:
  assumes "n < LENGTH('a::len)"
  shows "popcount ((2 :: 'a word) ^ n) = 1"
proof -
  have "{m. bit ((2 :: 'a word) ^ n) m} = {n}"
    using assms by (auto simp add: bit_exp_iff possible_bit_word)
  then show ?thesis
    by (simp add: popcount_card)
qed

lemma bit_decr_odd:
  assumes "odd (u :: 'a::len word)"
  shows "bit (u - 1) n \<longleftrightarrow> n \<noteq> 0 \<and> bit u n"
proof (cases "n = 0")
  case True
  with assms show ?thesis by (simp add: bit_0)
next
  case False
  with odd_bit_iff_bit_pred [OF assms, of n] show ?thesis by simp
qed

lemma bit_minus_odd:
  assumes "odd (u :: 'a::len word)"
  shows "bit (- u) n \<longleftrightarrow> n < LENGTH('a) \<and> (n = 0 \<or> \<not> bit u n)"
  using assms by (auto simp add: bit_minus_iff bit_decr_odd possible_bit_word)

text \<open>A word whose lowest set bit is at position \<open>j\<close>.\<close>

lemma lowest_bit_split:
  assumes "bit v j" and "take_bit j v = 0"
  shows "v = push_bit j (drop_bit j v) \<and> odd (drop_bit j (v :: 'a::len word))"
proof -
  have "push_bit j (drop_bit j v) + take_bit j v = v"
    by (rule bits_ident)
  with assms show ?thesis
    by (simp add: bit_iff_odd_drop_bit)
qed

lemma bit_minus_lowest:
  assumes "bit v j" and "take_bit j v = 0"
  shows "bit (- v) n \<longleftrightarrow> n < LENGTH('a) \<and> (n = j \<or> j < n \<and> \<not> bit (v :: 'a::len word) n)"
proof -
  let ?u = "drop_bit j v"
  from lowest_bit_split [OF assms] have v: "v = push_bit j ?u" and u: "odd ?u"
    by simp_all
  have "- v = push_bit j (- ?u)"
    by (subst v) (simp only: push_bit_minus)
  then have "bit (- v) n \<longleftrightarrow> j \<le> n \<and> n < LENGTH('a) \<and> bit (- ?u) (n - j)"
    by (auto simp add: bit_push_bit_iff possible_bit_word)
  also have "bit (- ?u) (n - j) \<longleftrightarrow> n - j < LENGTH('a) \<and> (n - j = 0 \<or> \<not> bit ?u (n - j))"
    using u by (rule bit_minus_odd)
  finally show ?thesis
    by (auto simp add: bit_drop_bit_eq)
qed

lemma and_minus_lowest:
  assumes "bit v j" and "take_bit j v = 0"
  shows "v AND - v = (2 :: 'a::len word) ^ j"
proof (rule bit_word_eqI)
  fix n assume n: "n < LENGTH('a)"
  have "bit (v AND - v) n \<longleftrightarrow> bit v n \<and> bit (- v) n"
    by (simp only: bit_and_iff)
  also have "\<dots> \<longleftrightarrow> bit v n \<and> n = j"
    using n by (simp only: bit_minus_lowest [OF assms]) blast
  also have "\<dots> \<longleftrightarrow> n = j"
    using assms(1) by blast
  also have "\<dots> \<longleftrightarrow> bit ((2 :: 'a word) ^ j) n"
    using n by (auto simp add: bit_exp_iff possible_bit_word)
  finally show "bit (v AND - v) n = bit ((2 :: 'a word) ^ j) n" .
qed

lemma lowest_bit_exists:
  assumes "v \<noteq> (0 :: 'a::len word)"
  obtains j where "bit v j" and "take_bit j v = 0" and "j < LENGTH('a)"
proof -
  have "\<exists>n. bit v n"
  proof (rule ccontr)
    assume "\<not> (\<exists>n. bit v n)"
    then have "v = 0"
      by (intro bit_eqI) simp
    with assms show False by simp
  qed
  then have b: "bit v (LEAST n. bit v n)"
    by (rule LeastI_ex)
  have lt: "\<not> bit v i" if "i < (LEAST n. bit v n)" for i
    using that by (rule not_less_Least)
  have "take_bit (LEAST n. bit v n) v = 0"
  proof (rule bit_word_eqI)
    fix n
    show "bit (take_bit (LEAST n. bit v n) v) n = bit (0 :: 'a word) n"
      using lt [of n] by (simp add: bit_take_bit_iff)
  qed
  moreover from b have "(LEAST n. bit v n) < LENGTH('a)"
    by (rule bit_imp_le_length)
  ultimately show thesis
    using b by (intro that)
qed

section \<open>Representations of consecutive values\<close>

lemma bit_decr_lowest:
  assumes "bit v j" and "take_bit j v = 0"
  shows "bit (v - 1) n \<longleftrightarrow> n < j \<or> j < n \<and> bit (v :: 'a::len word) n"
proof -
  have j: "j < LENGTH('a)"
    using assms(1) by (rule bit_imp_le_length)
  have low: "\<not> bit v n" if "n < j"
  proof -
    have "bit (take_bit j v) n = bit v n"
      using that by (simp add: bit_take_bit_iff)
    with assms(2) show ?thesis by simp
  qed
  have "bit (v - 1) n \<longleftrightarrow> n < LENGTH('a) \<and> \<not> bit (- v) n"
    by (simp add: decr_eq_not_minus bit_not_iff possible_bit_word)
  also have "\<dots> \<longleftrightarrow> n < LENGTH('a) \<and> \<not> (n = j \<or> j < n \<and> \<not> bit v n)"
    by (simp only: bit_minus_lowest [OF assms]) blast
  also have "\<dots> \<longleftrightarrow> n < j \<or> j < n \<and> bit v n"
    using j low bit_imp_le_length [of v n] by (cases "n < j"; cases "n = j") auto
  finally show ?thesis .
qed

lemma gray_step:
  assumes "bit z j" and "take_bit j z = 0"
  shows "to_gray (z - 1) XOR to_gray z = (2 :: 'a::len word) ^ j"
proof (rule bit_word_eqI)
  fix n assume n: "n < LENGTH('a)"
  note d = bit_decr_lowest [OF assms]
  have low: "\<not> bit z i" if "i < j" for i
  proof -
    have "bit (take_bit j z) i = bit z i"
      using that by (simp add: bit_take_bit_iff)
    with assms(2) show ?thesis by simp
  qed
  have "bit (to_gray (z - 1) XOR to_gray z) n
        \<longleftrightarrow> ((bit (z - 1) n \<noteq> bit (z - 1) (Suc n)) \<noteq> (bit z n \<noteq> bit z (Suc n)))"
    by (simp add: to_gray_def bit_xor_iff bit_drop_bit_eq)
  also have "\<dots> \<longleftrightarrow> n = j"
  proof (cases "n < j")
    case True
    then show ?thesis
      using low [of n] low [of "Suc n"] assms(1) by (cases "Suc n = j") (auto simp add: d)
  next
    case False
    then show ?thesis
      using assms(1) by (cases "n = j") (auto simp add: d)
  qed
  also have "\<dots> \<longleftrightarrow> bit ((2 :: 'a word) ^ j) n"
    using n by (auto simp add: bit_exp_iff possible_bit_word)
  finally show "bit (to_gray (z - 1) XOR to_gray z) n = bit ((2 :: 'a word) ^ j) n" .
qed

lemma gray_successor_one_bit:
  assumes "x \<noteq> (- 1 :: 'a::len word)"
  obtains j where "j < LENGTH('a)" and "to_gray x XOR to_gray (x + 1) = 2 ^ j"
proof -
  from assms have "x + 1 \<noteq> 0"
    by (metis add_eq_0_iff2)
  then obtain j where "bit (x + 1) j" and "take_bit j (x + 1) = 0" and j: "j < LENGTH('a)"
    by (rule lowest_bit_exists)
  then have "to_gray (x + 1 - 1) XOR to_gray (x + 1) = 2 ^ j"
    by (intro gray_step)
  with j show thesis
    by (intro that [of j]) simp_all
qed

section \<open>Parity, increment and decrement on types no wider than \<open>int\<close>\<close>

text \<open>
  For a \<open>value_type\<close> of at most 32 bits the constant \<open>msb\<close> is the top bit, and both
  branches of \<open>is_odd\<close> give the parity of the number of set bits, which is the parity
  of the decoded value.  For a wider type the shift that computes \<open>msb\<close> is undefined.
\<close>

lemma msb_upto_32:
  assumes "LENGTH('a::len) \<le> 32"
  shows "(msb :: 'a word option) = Some (2 ^ (LENGTH('a) - 1))"
proof -
  have "(2 :: int) ^ (LENGTH('a) - 1) \<le> 2 ^ 31"
    using assms by (simp only: power_increasing_iff one_less_numeral_iff semiring_norm)
  then have d: "int_shift_left 1 (LENGTH('a) - 1) = Some (2 ^ (LENGTH('a) - 1))"
    using assms by (simp add: int_shift_left_def)
  have "int_to_unsigned ((2 :: 32 word) ^ (LENGTH('a) - 1)) = (2 :: 'a word) ^ (LENGTH('a) - 1)"
    using assms
    by (intro bit_word_eqI) (auto simp add: int_to_unsigned_bit bit_exp_iff possible_bit_word)
  with d show ?thesis
    by (simp add: msb_def)
qed

lemma msb_beyond_32:
  assumes "32 < LENGTH('a::len)"
  shows "(msb :: 'a word option) = None"
  using assms by (simp add: msb_def int_shift_left_def)

lemma is_odd_popcount:
  assumes "LENGTH('a::len) = 2 ^ k" and "LENGTH('a) \<le> 32"
  shows "is_odd c g = odd (popcount (value (g :: 'a gray_code)))"
  using assms by (cases c) (simp_all add: is_odd_intrinsic is_odd_portable)

lemma odd_decoded:
  assumes "LENGTH('a::len) = 2 ^ k"
  shows "odd (unat (operator_value_type g)) = odd (popcount (value (g :: 'a gray_code)))"
proof -
  have "odd (unat (from_gray (value g))) = bit (from_gray (value g)) 0"
    by (simp add: bit_unsigned_iff flip: bit_0)
  also have "\<dots> = odd (popcount (to_gray (from_gray (value g))))"
    by (simp only: parity_to_gray)
  finally show ?thesis
    by (simp only: to_gray_from_gray [OF assms] operator_value_type_from_gray)
qed

lemma to_gray_max: "to_gray (- 1 :: 'a::len word) = 2 ^ (LENGTH('a) - 1)"
proof (rule bit_word_eqI)
  fix n assume "n < LENGTH('a)"
  then show "bit (to_gray (- 1 :: 'a word)) n = bit ((2 :: 'a word) ^ (LENGTH('a) - 1)) n"
    unfolding to_gray_def bit_xor_iff bit_drop_bit_eq bit_exp_iff possible_bit_word
    by (simp only: bit_minus_1_iff possible_bit_word) auto
qed

lemma increment_rule:
  assumes "LENGTH('a::len) = 2 ^ k" and "LENGTH('a) \<le> 32"
  shows "operator_increment c g =
           Some (if odd (unat (operator_value_type g)) then
                   (if value g = 2 ^ (LENGTH('a) - 1) then g\<lparr>value := 0\<rparr>
                    else g\<lparr>value := value g XOR push_bit 1 (value g AND - value g)\<rparr>)
                 else (g :: 'a gray_code)\<lparr>value := value g XOR 1\<rparr>)"
  by (simp only: operator_increment_def msb_upto_32 [OF assms(2)] is_odd_popcount [OF assms]
      odd_decoded [OF assms(1)] Let_def option.case)

lemma decrement_rule:
  assumes "LENGTH('a::len) = 2 ^ k" and "LENGTH('a) \<le> 32"
  shows "operator_decrement c g =
           Some (if odd (unat (operator_value_type g)) then g\<lparr>value := value g XOR 1\<rparr>
                 else
                   (if value g = 0 then g\<lparr>value := 2 ^ (LENGTH('a) - 1)\<rparr>
                    else (g :: 'a gray_code)\<lparr>value := value g XOR push_bit 1 (value g AND - value g)\<rparr>))"
  by (simp only: operator_decrement_def msb_upto_32 [OF assms(2)] is_odd_popcount [OF assms]
      odd_decoded [OF assms(1)] Let_def option.case)

lemma popcount_0: "popcount (0 :: 'a::len word) = 0"
  by (simp add: popcount_card)

lemma popcount_1: "popcount (1 :: 'a::len word) = 1"
  using popcount_exp [of 0, where ?'a = 'a] by simp

lemma wraparound_upto_32:
  assumes "LENGTH('a::len) = 2 ^ k" and "LENGTH('a) \<le> 32"
  shows "value (gray (- 1 :: 'a word)) = 2 ^ (LENGTH('a) - 1)"
    and "operator_increment c (gray (- 1 :: 'a word)) = Some (gray 0)"
    and "value (gray (0 :: 'a word)) = 0"
    and "operator_value_type (gray (0 :: 'a word)) = 0"
    and "operator_decrement c (gray (0 :: 'a word)) = Some (gray (- 1))"
    and "operator_value_type (gray (- 1 :: 'a word)) = - 1"
proof -
  show m: "value (gray (- 1 :: 'a word)) = 2 ^ (LENGTH('a) - 1)"
    by (simp only: value_gray to_gray_max)
  show z: "value (gray (0 :: 'a word)) = 0"
    by (simp add: value_gray to_gray_def)
  have g0: "gray (0 :: 'a word) = \<lparr>value = 0\<rparr>" and gm: "gray (- 1 :: 'a word) = \<lparr>value = 2 ^ (LENGTH('a) - 1)\<rparr>"
    using m z by (simp_all add: gray_def gray_code_of_value_def)
  have o: "odd (popcount ((2 :: 'a word) ^ (LENGTH('a) - 1)))"
    by (simp add: popcount_exp)
  show "operator_increment c (gray (- 1 :: 'a word)) = Some (gray 0)"
    using o by (simp add: operator_increment_def msb_upto_32 [OF assms(2)] is_odd_popcount [OF assms] g0 gm)
  show "operator_decrement c (gray (0 :: 'a word)) = Some (gray (- 1))"
    by (simp add: operator_decrement_def msb_upto_32 [OF assms(2)] is_odd_popcount [OF assms] g0 gm popcount_0)
  show "operator_value_type (gray (0 :: 'a word)) = 0"
    using from_gray_to_gray [OF assms(1), of 0]
    by (simp only: operator_value_type_from_gray value_gray)
  show "operator_value_type (gray (- 1 :: 'a word)) = - 1"
    using from_gray_to_gray [OF assms(1), of "- 1"]
    by (simp only: operator_value_type_from_gray value_gray)
qed

text \<open>
  Decrementing after incrementing gives back the Gray code, also across the
  wrap-around.
\<close>

lemma only_top_bit:
  assumes "bit v (LENGTH('a) - 1)" and "take_bit (LENGTH('a) - 1) v = 0"
  shows "v = (2 :: 'a::len word) ^ (LENGTH('a) - 1)"
proof (rule bit_word_eqI)
  fix n assume n: "n < LENGTH('a)"
  show "bit v n = bit ((2 :: 'a word) ^ (LENGTH('a) - 1)) n"
  proof (cases "n = LENGTH('a) - 1")
    case True
    with assms(1) n show ?thesis
      by (simp add: bit_exp_iff possible_bit_word)
  next
    case False
    with n have "n < LENGTH('a) - 1" by simp
    then have "bit (take_bit (LENGTH('a) - 1) v) n = bit v n"
      by (simp add: bit_take_bit_iff)
    with assms(2) False show ?thesis
      by (simp add: bit_exp_iff)
  qed
qed

lemma flip_left_of_lowest:
  assumes "bit v j" and "take_bit j v = 0"
  shows "bit (v XOR 2 ^ Suc j) j" and "take_bit j (v XOR 2 ^ Suc j) = (0 :: 'a::len word)"
proof -
  show "bit (v XOR 2 ^ Suc j) j"
    using assms(1) by (simp add: bit_xor_iff bit_exp_iff del: power_Suc)
  have "take_bit j ((2 :: 'a word) ^ Suc j) = 0"
    by (rule bit_word_eqI) (simp add: bit_take_bit_iff bit_exp_iff del: power_Suc)
  with assms(2) show "take_bit j (v XOR 2 ^ Suc j) = 0"
    by (simp add: take_bit_xor del: power_Suc)
qed

lemma increment_decrement_upto_32:
  assumes "LENGTH('a::len) = 2 ^ k" and "LENGTH('a) \<le> 32"
  shows "Option.bind (operator_increment c g) (operator_decrement c) = Some (g :: 'a gray_code)"
proof -
  let ?M = "(2 :: 'a word) ^ (LENGTH('a) - 1)"
  let ?v = "value g"
  note odd = is_odd_popcount [OF assms]
  note defs = operator_increment_def operator_decrement_def msb_upto_32 [OF assms(2)]
  show ?thesis
  proof (cases "odd (popcount ?v)")
    case False
    then have "odd (popcount (?v XOR 1))"
      by (simp add: parity_xor popcount_1)
    with False show ?thesis
      by (simp add: defs odd xor.assoc)
  next
    case True
    show ?thesis
    proof (cases "?v = ?M")
      case top: True
      have "g\<lparr>value := ?M\<rparr> = g"
        using top by simp
      with True top show ?thesis
        by (simp add: defs odd popcount_0)
    next
      case not_top: False
      from True have "?v \<noteq> 0"
        by (auto simp add: popcount_0)
      then obtain j where j: "bit ?v j" "take_bit j ?v = 0" "j < LENGTH('a)"
        by (rule lowest_bit_exists)
      have "j \<noteq> LENGTH('a) - 1"
        using only_top_bit [of ?v] j not_top by auto
      with j(3) have sj: "Suc j < LENGTH('a)" by simp
      let ?w = "?v XOR 2 ^ Suc j"
      have y: "?v AND - ?v = 2 ^ j"
        using j(1,2) by (rule and_minus_lowest)
      have y': "?w AND - ?w = 2 ^ j"
        using flip_left_of_lowest [OF j(1,2)] by (rule and_minus_lowest)
      have even: "\<not> odd (popcount ?w)"
        using True sj by (simp add: parity_xor popcount_exp del: power_Suc)
      have nz: "?w \<noteq> 0"
        using flip_left_of_lowest(1) [OF j(1,2)] by auto
      have pb: "push_bit 1 ((2 :: 'a word) ^ j) = 2 ^ Suc j"
        by (simp add: push_bit_eq_mult)
      have dv: "value (g\<lparr>value := ?w\<rparr>) = ?w"
        by simp
      have ne: "?v = ?M \<longleftrightarrow> False" "?w = 0 \<longleftrightarrow> False"
        and par: "odd (popcount ?v) \<longleftrightarrow> True" "odd (popcount ?w) \<longleftrightarrow> False"
        using True not_top even nz by simp_all
      have inc: "operator_increment c g = Some (g\<lparr>value := ?w\<rparr>)"
        by (simp only: defs odd Let_def option.case par ne if_True if_False y pb)
      have "operator_decrement c (g\<lparr>value := ?w\<rparr>)
            = Some (g\<lparr>value := ?w\<rparr>\<lparr>value := ?w XOR 2 ^ Suc j\<rparr>)"
        by (simp only: defs odd Let_def option.case dv par ne if_True if_False y' pb)
      also have "g\<lparr>value := ?w\<rparr>\<lparr>value := ?w XOR 2 ^ Suc j\<rparr> = g"
        by (simp add: xor.assoc del: power_Suc)
      finally show ?thesis
        by (simp add: inc)
    qed
  qed
qed

lemma parity_law_upto_32:
  assumes "LENGTH('a::len) = 2 ^ k" and "c = GNUC_or_clang \<Longrightarrow> LENGTH('a) \<le> 32"
  shows "is_odd c (gray x) = odd (unat (x :: 'a word))"
    and "odd (unat x) = odd (popcount (to_gray x))"
    and "is_even c g = (\<not> is_odd c (g :: 'a gray_code))"
proof -
  have b: "odd (unat x) = bit x 0"
    by (simp add: bit_unsigned_iff flip: bit_0)
  then show p: "odd (unat x) = odd (popcount (to_gray x))"
    by (simp only: parity_to_gray)
  have "is_odd c (gray x) = odd (popcount (value (gray x)))"
    using assms by (cases c) (simp_all add: is_odd_intrinsic is_odd_portable)
  with p show "is_odd c (gray x) = odd (unat x)"
    by (simp only: value_gray)
  show "is_even c g = (\<not> is_odd c g)"
    by (simp add: is_even_def)
qed

lemma parity_paths_agree_upto_32:
  assumes "LENGTH('a::len) = 2 ^ k" and "LENGTH('a) \<le> 32"
  shows "is_odd Other_compiler g = is_odd GNUC_or_clang (g :: 'a gray_code)"
    and "is_odd GNUC_or_clang g = odd (popcount (value g))"
  by (simp_all only: is_odd_popcount [OF assms])

section \<open>Properties\<close>

text \<open>
  C1.  For a wrapped type whose width is a power of two (every built-in unsigned
  type), converting to Gray code and back is the identity,
  \<open>from_gray (to_gray x) = x\<close>, and so is the other round trip,
  \<open>to_gray (from_gray y) = y\<close>; the constructor from \<open>value_type\<close> and the conversion
  operator \<open>value_type\<close> are inverse to each other, the constructor is a bijection from
  the values to the Gray codes, and \<open>to_gray\<close> maps distinct values to distinct
  representations.
\<close>

theorem gray_round_trip:
  assumes "LENGTH('a::len) = 2 ^ k"
  shows "from_gray (to_gray x) = (x :: 'a word)
       \<and> to_gray (from_gray y) = (y :: 'a word)
       \<and> operator_value_type (gray_code_of_value x) = x
       \<and> gray_code_of_value (operator_value_type g) = (g :: 'a gray_code)
       \<and> bij (gray_code_of_value :: 'a word \<Rightarrow> 'a gray_code)
       \<and> bij (to_gray :: 'a word \<Rightarrow> 'a word)
       \<and> (\<forall>a b :: 'a word. a \<noteq> b \<longrightarrow> to_gray a \<noteq> to_gray b)"
proof -
  note ft = from_gray_to_gray [OF assms] and tf = to_gray_from_gray [OF assms]
  have c: "operator_value_type (gray_code_of_value v) = v" for v :: "'a word"
    by (simp only: operator_value_type_from_gray value_gray_code_of_value ft)
  have "value (gray_code_of_value (operator_value_type h)) = value h" for h :: "'a gray_code"
    by (simp only: operator_value_type_from_gray value_gray_code_of_value tf)
  then have d: "gray_code_of_value (operator_value_type h) = h" for h :: "'a gray_code"
    by simp
  have b1: "bij (gray_code_of_value :: 'a word \<Rightarrow> 'a gray_code)"
    by (rule bijI' [where ?f = gray_code_of_value]) (metis c, metis d)
  have b2: "bij (to_gray :: 'a word \<Rightarrow> 'a word)"
    by (rule bijI' [where ?f = to_gray]) (metis ft, metis tf)
  have "to_gray a \<noteq> to_gray b" if "a \<noteq> b" for a b :: "'a word"
    using that ft by metis
  with ft tf c d b1 b2 show ?thesis
    by blast
qed

theorem gray_round_trip_witness:
  "LENGTH(8) = 2 ^ 3
   \<and> from_gray (to_gray (24 :: 8 word)) = 24
   \<and> to_gray (from_gray (20 :: 8 word)) = 20
   \<and> operator_value_type (gray_code_of_value (24 :: 8 word)) = 24
   \<and> gray_code_of_value (operator_value_type \<lparr>value = 20 :: 8 word\<rparr>) = \<lparr>value = 20\<rparr>
   \<and> bij (gray_code_of_value :: 8 word \<Rightarrow> 8 gray_code)
   \<and> bij (to_gray :: 8 word \<Rightarrow> 8 word)
   \<and> to_gray (24 :: 8 word) \<noteq> to_gray 25"
  using gray_round_trip [where ?'a = 8 and k = 3 and x = 24 and y = 20
      and g = "\<lparr>value = 20\<rparr>"]
  by simp

text \<open>
  C2.  For every supported width \<open>W\<close>, the successor of the code built from \<open>2^W - 1\<close>,
  whose representation is the single most significant bit, has representation 0 and
  decodes to 0, and the predecessor of the code 0 has that top-bit representation and
  decodes to \<open>2^W - 1\<close>.  The code does this for widths up to 32
  (\<open>wraparound_upto_32\<close>).  For the 64-bit \<open>gray_code<unsigned long long>\<close> the constant
  \<open>msb\<close> is \<open>1 << 63\<close> computed on \<open>int\<close>, which is undefined, so neither \<open>operator++\<close>
  nor \<open>operator--\<close> has a result there.
\<close>

theorem wraparound_undefined_64:
  "(msb :: 64 word option) = None
   \<and> value (gray (- 1 :: 64 word)) = 2 ^ 63
   \<and> operator_increment c (gray (- 1 :: 64 word)) = None
   \<and> operator_decrement c (gray (0 :: 64 word)) = None"
  by (simp add: operator_increment_def operator_decrement_def msb_beyond_32 value_gray to_gray_max)

text \<open>
  C3.  \<open>operator++\<close> flips bit 0 of the representation when the represented value is
  even and otherwise XORs the representation with its lowest set bit shifted left by
  one; \<open>operator--\<close> flips bit 0 when the value is odd and otherwise flips the bit left
  of the lowest set bit.  The code does this for widths up to 32 (\<open>increment_rule\<close>,
  \<open>decrement_rule\<close>).  For a 64-bit \<open>value_type\<close> the two operators have no defined
  result, \<open>msb\<close> being undefined; moreover with GCC or clang \<open>is_odd\<close> sees only the low
  32 bits, so that the representation \<open>2 ^ 32\<close>, which decodes to the odd value
  \<open>2 ^ 33 - 1\<close>, is taken for even.
\<close>

theorem increment_rule_undefined_64:
  "operator_increment c \<lparr>value = 2 ^ 32 :: 64 word\<rparr> = None
   \<and> operator_decrement c \<lparr>value = 2 ^ 32 :: 64 word\<rparr> = None
   \<and> operator_value_type \<lparr>value = 2 ^ 32 :: 64 word\<rparr> = 2 ^ 33 - 1
   \<and> \<not> is_odd GNUC_or_clang \<lparr>value = 2 ^ 32 :: 64 word\<rparr>"
proof -
  have "operator_value_type \<lparr>value = 2 ^ 32 :: 64 word\<rparr> = 2 ^ 33 - 1"
    by code_simp
  moreover have "\<not> is_odd GNUC_or_clang \<lparr>value = 2 ^ 32 :: 64 word\<rparr>"
    by code_simp
  ultimately show ?thesis
    by (simp add: operator_increment_def operator_decrement_def msb_beyond_32)
qed

text \<open>
  C4.  \<open>is_odd (gray x)\<close> is true exactly when \<open>x\<close> is odd, which is exactly when the
  number of set bits of \<open>to_gray x\<close> is odd, and \<open>is_even\<close> is the negation of \<open>is_odd\<close>.
  The portable branch does this for every width, the intrinsic branch for widths up to
  32 (\<open>parity_law_upto_32\<close>).  For a 64-bit \<open>value_type\<close> the intrinsic branch passes
  \<open>code.value\<close> to \<open>__builtin_parity\<close>, whose parameter is an \<open>unsigned int\<close>: for the
  even \<open>x = 2 ^ 32\<close>, whose representation has two bits set, \<open>is_odd (gray x)\<close> is true.
\<close>

theorem parity_law_fails_64:
  "is_odd GNUC_or_clang (gray (2 ^ 32 :: 64 word))
   \<and> even (unat (2 ^ 32 :: 64 word))
   \<and> popcount (value (gray (2 ^ 32 :: 64 word))) = 2
   \<and> \<not> is_odd Other_compiler (gray (2 ^ 32 :: 64 word))
   \<and> is_even GNUC_or_clang (gray (2 ^ 32 :: 64 word)) = (\<not> is_odd GNUC_or_clang (gray (2 ^ 32 :: 64 word)))"
proof -
  have "is_odd GNUC_or_clang (gray (2 ^ 32 :: 64 word))"
    by code_simp
  moreover have "popcount (value (gray (2 ^ 32 :: 64 word))) = 2"
    by code_simp
  moreover have "\<not> is_odd Other_compiler (gray (2 ^ 32 :: 64 word))"
    by code_simp
  ultimately show ?thesis
    by (simp add: is_even_def)
qed

text \<open>
  C5.  Applying \<open>operator++\<close> and then \<open>operator--\<close> gives back the original Gray code.
  The code does this for widths up to 32 (\<open>increment_decrement_upto_32\<close>).  For a 64-bit
  \<open>value_type\<close> \<open>operator++\<close> has no defined result, \<open>msb\<close> being undefined.
\<close>

theorem inverse_law_undefined_64:
  "Option.bind (operator_increment c (gray (0 :: 64 word))) (operator_decrement c) = None"
  by (simp add: operator_increment_def msb_beyond_32)

text \<open>
  C6.  The portable branch of \<open>is_odd\<close> and the branch using the parity intrinsic return
  the same boolean for every representation of every width, namely the number of set
  bits modulo 2.  The code does this for widths up to 32
  (\<open>parity_paths_agree_upto_32\<close>).  For a 64-bit \<open>value_type\<close> the intrinsic receives the
  representation truncated to \<open>unsigned int\<close>: on the representation \<open>2 ^ 32\<close>, with one
  bit set, the portable branch returns true and the intrinsic branch false.
\<close>

theorem parity_paths_disagree_64:
  "is_odd Other_compiler \<lparr>value = 2 ^ 32 :: 64 word\<rparr>
   \<and> \<not> is_odd GNUC_or_clang \<lparr>value = 2 ^ 32 :: 64 word\<rparr>
   \<and> popcount (2 ^ 32 :: 64 word) = 1"
proof -
  have "is_odd Other_compiler \<lparr>value = 2 ^ 32 :: 64 word\<rparr>"
    by code_simp
  moreover have "\<not> is_odd GNUC_or_clang \<lparr>value = 2 ^ 32 :: 64 word\<rparr>"
    by code_simp
  moreover have "popcount (2 ^ 32 :: 64 word) = 1"
    by (rule popcount_exp) simp
  ultimately show ?thesis
    by simp
qed

text \<open>
  C7.  For every Gray code \<open>g\<close> and every plain unsigned value \<open>n\<close> of the same
  (power-of-two) width, the mixed equality operators, in either operand order, hold
  exactly when \<open>to_gray n\<close>, computed as \<open>n XOR (n >> 1)\<close>, equals the stored
  representation of \<open>g\<close>; equivalently, exactly when the binary value that \<open>g\<close> encodes
  equals \<open>n\<close>.
\<close>

theorem mixed_equality:
  assumes "LENGTH('a::len) = 2 ^ k"
  shows "operator_eq_gray_unsigned g n = (n XOR drop_bit 1 n = value g)
       \<and> operator_eq_unsigned_gray n g = (n XOR drop_bit 1 n = value g)
       \<and> operator_eq_gray_unsigned g n = (to_gray n = value g)
       \<and> operator_eq_unsigned_gray n g = (to_gray n = value g)
       \<and> operator_eq_gray_unsigned g n = (operator_value_type g = n)
       \<and> operator_eq_unsigned_gray n g = (operator_value_type (g :: 'a gray_code) = n)"
proof -
  have "(to_gray n = value g) = (from_gray (value g) = n)"
    using from_gray_to_gray [OF assms] to_gray_from_gray [OF assms] by metis
  then show ?thesis
    by (simp add: operator_eq_gray_unsigned_def operator_eq_unsigned_gray_def
        operator_value_type_from_gray to_gray_def)
qed

theorem mixed_equality_witness:
  "LENGTH(8) = 2 ^ 3
   \<and> operator_eq_gray_unsigned (gray (52 :: 8 word)) 52 = (52 XOR drop_bit 1 52 = value (gray (52 :: 8 word)))
   \<and> operator_eq_unsigned_gray 52 (gray (52 :: 8 word)) = (52 XOR drop_bit 1 52 = value (gray (52 :: 8 word)))
   \<and> operator_eq_gray_unsigned (gray (52 :: 8 word)) 52 = (to_gray 52 = value (gray (52 :: 8 word)))
   \<and> operator_eq_unsigned_gray 52 (gray (52 :: 8 word)) = (to_gray 52 = value (gray (52 :: 8 word)))
   \<and> operator_eq_gray_unsigned (gray (52 :: 8 word)) 52 = (operator_value_type (gray (52 :: 8 word)) = 52)
   \<and> operator_eq_unsigned_gray 52 (gray (52 :: 8 word)) = (operator_value_type (gray (52 :: 8 word)) = 52)"
proof -
  have h: "LENGTH(8) = 2 ^ 3" by simp
  show ?thesis
    using h mixed_equality [OF h, where g = "gray 52" and n = 52] by blast
qed

text \<open>
  C8.  The homogeneous bitwise operators act on the raw representations and return a
  Gray code: the representation of \<open>a AND b\<close> is the \<open>AND\<close> of the two representations,
  likewise for \<open>OR\<close>, \<open>XOR\<close> and unary \<open>NOT\<close>; a shift by less than the width is defined
  and shifts the representation, and any shift that is defined does so.  In particular
  the representation of \<open>gray(42) AND gray(28)\<close> is \<open>to_gray 42 AND to_gray 28\<close>, which is
  not \<open>to_gray (42 AND 28)\<close>.
\<close>

theorem bitwise_on_representation:
  assumes "LENGTH('a::len) = 2 ^ k" and "pos < LENGTH('a)"
  shows "value (operator_and a b) = value a AND value (b :: 'a gray_code)
       \<and> value (operator_or a b) = value a OR value b
       \<and> value (operator_xor a b) = value a XOR value b
       \<and> value (operator_not a) = NOT (value a)
       \<and> operator_and_assign a b = a\<lparr>value := value a AND value b\<rparr>
       \<and> operator_shl a pos = Some (a\<lparr>value := push_bit pos (value a)\<rparr>)
       \<and> operator_shr a pos = Some (a\<lparr>value := drop_bit pos (value a)\<rparr>)
       \<and> (\<forall>n r. operator_shl a n = Some r \<longrightarrow> value r = push_bit n (value a))
       \<and> (\<forall>n r. operator_shr a n = Some r \<longrightarrow> value r = drop_bit n (value a))
       \<and> value (operator_and (gray 42) (gray 28 :: 32 gray_code)) = to_gray 42 AND to_gray 28
       \<and> value (operator_and (gray 42) (gray 28 :: 32 gray_code)) \<noteq> to_gray (42 AND 28)"
proof -
  have l: "operator_shl a pos = Some (a\<lparr>value := push_bit pos (value a)\<rparr>)"
    using shift_left_defined [OF assms, of "value a"] shift_left_Some [of "value a" pos]
    by (auto simp add: operator_shl_def operator_shl_assign_def)
  have r: "operator_shr a pos = Some (a\<lparr>value := drop_bit pos (value a)\<rparr>)"
    using shift_right_defined [OF assms(2), of "value a"] shift_right_Some [of "value a" pos]
    by (auto simp add: operator_shr_def operator_shr_assign_def)
  have l': "value r = push_bit n (value a)" if "operator_shl a n = Some r" for n r
    using that shift_left_Some [of "value a" n]
    by (auto simp add: operator_shl_def operator_shl_assign_def)
  have r': "value r = drop_bit n (value a)" if "operator_shr a n = Some r" for n r
    using that shift_right_Some [of "value a" n]
    by (auto simp add: operator_shr_def operator_shr_assign_def)
  have e: "value (operator_and (gray 42) (gray 28 :: 32 gray_code)) = to_gray 42 AND to_gray 28"
    by (simp add: operator_and_def operator_and_assign_def value_gray)
  have "to_gray (42 :: 32 word) AND to_gray 28 = 18" and "to_gray (42 AND 28 :: 32 word) = 12"
    by (simp_all add: to_gray_def)
  with e have n: "value (operator_and (gray 42) (gray 28 :: 32 gray_code)) \<noteq> to_gray (42 AND 28)"
    by simp
  show ?thesis
    using l r l' r' e n
    by (simp add: operator_and_def operator_and_assign_def operator_or_def operator_or_assign_def
        operator_xor_def operator_xor_assign_def operator_not_def)
qed

theorem bitwise_on_representation_witness:
  "LENGTH(8) = 2 ^ 3 \<and> (3 :: nat) < LENGTH(8)
   \<and> value (operator_and (gray 42) (gray 28 :: 8 gray_code)) = 18
   \<and> value (operator_or (gray 42) (gray 28 :: 8 gray_code)) = 63
   \<and> value (operator_xor (gray 42) (gray 28 :: 8 gray_code)) = 45
   \<and> value (operator_not (gray 42 :: 8 gray_code)) = 192
   \<and> operator_shl (gray 42 :: 8 gray_code) 3 = Some \<lparr>value = 248\<rparr>
   \<and> operator_shr (gray 42 :: 8 gray_code) 3 = Some \<lparr>value = 7\<rparr>"
proof -
  have h: "LENGTH(8) = 2 ^ 3" "(3 :: nat) < LENGTH(8)" by simp_all
  have v: "value (gray 42 :: 8 gray_code) = 63" "value (gray 28 :: 8 gray_code) = 18"
    by (simp_all add: value_gray to_gray_def)
  have g: "gray (42 :: 8 word) = \<lparr>value = 63\<rparr>"
    by (simp add: gray_def gray_code_of_value_def)
  show ?thesis
    using h bitwise_on_representation [OF h, where a = "gray 42" and b = "gray 28"]
    by (simp add: v g)
qed

text \<open>
  C9.  For every \<open>x\<close> in \<open>[0, 2^W - 1)\<close> the representations \<open>to_gray x\<close> and
  \<open>to_gray (x + 1)\<close>, which are the representations stored by the constructor for \<open>x\<close>
  and for \<open>x + 1\<close>, differ in exactly one bit position.
\<close>

theorem single_bit_change:
  assumes "unat (x :: 'a::len word) < 2 ^ LENGTH('a) - 1"
  shows "unat (x + 1) = unat x + 1
       \<and> popcount (to_gray x XOR to_gray (x + 1)) = 1
       \<and> popcount (value (gray x) XOR value (gray (x + 1))) = 1
       \<and> (\<exists>j<LENGTH('a). \<forall>i. (bit (to_gray x) i \<noteq> bit (to_gray (x + 1)) i) = (i = j))"
proof -
  have "unat (- 1 :: 'a word) = 2 ^ LENGTH('a) - 1"
    by (simp add: unsigned_minus_1_eq_mask mask_eq_exp_minus_1)
  with assms have "x \<noteq> - 1" by auto
  then obtain j where j: "j < LENGTH('a)" and e: "to_gray x XOR to_gray (x + 1) = 2 ^ j"
    by (rule gray_successor_one_bit)
  have s: "unat (x + 1) = unat x + 1"
    using assms by (simp add: unat_word_ariths)
  have p: "popcount (to_gray x XOR to_gray (x + 1)) = 1"
    using j by (simp only: e popcount_exp)
  have "(bit (to_gray x) i \<noteq> bit (to_gray (x + 1)) i) = (i = j)" for i
  proof -
    have "(bit (to_gray x) i \<noteq> bit (to_gray (x + 1)) i) = bit (to_gray x XOR to_gray (x + 1)) i"
      by (simp add: bit_xor_iff)
    also have "\<dots> = (i = j)"
      using j by (auto simp add: e bit_exp_iff possible_bit_word)
    finally show ?thesis .
  qed
  with j s p show ?thesis
    by (auto simp add: value_gray)
qed

theorem single_bit_change_witness:
  "unat (5 :: 8 word) < 2 ^ LENGTH(8) - 1
   \<and> unat (5 + 1 :: 8 word) = unat (5 :: 8 word) + 1
   \<and> popcount (to_gray (5 :: 8 word) XOR to_gray (5 + 1)) = 1
   \<and> popcount (value (gray (5 :: 8 word)) XOR value (gray (5 + 1))) = 1
   \<and> (\<exists>j<LENGTH(8). \<forall>i. (bit (to_gray (5 :: 8 word)) i \<noteq> bit (to_gray (5 + 1 :: 8 word)) i) = (i = j))"
proof -
  have h: "unat (5 :: 8 word) < 2 ^ LENGTH(8) - 1" by simp
  show ?thesis
    using h single_bit_change [OF h] by blast
qed

text \<open>
  C10.  For each of the three pairs of equality operators (two Gray codes, a Gray code
  and a plain unsigned integer, a plain unsigned integer and a Gray code) and for all
  operands, \<open>operator!=\<close> is the negation of \<open>operator==\<close>.
\<close>

theorem ne_is_negated_eq:
  "operator_ne a b = (\<not> operator_eq a b)
   \<and> operator_ne_gray_unsigned a n = (\<not> operator_eq_gray_unsigned a n)
   \<and> operator_ne_unsigned_gray n a = (\<not> operator_eq_unsigned_gray n a)"
  by (simp add: operator_ne_def operator_eq_def
      operator_ne_gray_unsigned_def operator_eq_gray_unsigned_def
      operator_ne_unsigned_gray_def operator_eq_unsigned_gray_def)

end
